theory Spec2Isabelle
  imports Main
begin

section \<open>Configuration of the fixed-time controller\<close>

text \<open>
  The model follows \<^verbatim>\<open>src/Enviroment/fixed_timer.py\<close>. Python integers are
  \<^typ>\<open>int\<close>, Python strings are \<^typ>\<open>string\<close>, and the dictionaries of the
  configuration are association lists in the order in which the source writes them
  (the keys of each literal are distinct, so \<^const>\<open>map_of\<close> is the lookup).
\<close>

type_synonym tl_id = string

type_synonym segment = "string \<times> int"

type_synonym pattern = "segment list"

record phase =
  duration :: int
  patterns :: "(tl_id \<times> pattern) list"
  name :: string

definition SIMULATION_TIME :: int where
  "SIMULATION_TIME = 58500"

definition TRAFFIC_LIGHTS :: "(tl_id \<times> int) list" where
  "TRAFFIC_LIGHTS =
     [(''T1'', 3), (''T2'', 2), (''T3'', 3), (''T4'', 2), (''T5'', 1)]"

definition PHASE_1 :: "(tl_id \<times> pattern) list" where
  "PHASE_1 =
     [(''T1'', [(''rrr'', 15), (''ggg'', 40), (''yyy'', 5)]),
      (''T2'', [(''rr'', 60)]),
      (''T3'', [(''rrr'', 60)]),
      (''T4'', [(''gg'', 55), (''yy'', 5)]),
      (''T5'', [(''g'', 10), (''r'', 15), (''g'', 25), (''y'', 5)])]"

definition PHASE_2 :: "(tl_id \<times> pattern) list" where
  "PHASE_2 =
     [(''T1'', [(''rrr'', 15), (''ggg'', 40), (''yyy'', 5)]),
      (''T2'', [(''gg'', 55), (''yy'', 5)]),
      (''T3'', [(''rrr'', 60)]),
      (''T4'', [(''rr'', 60)]),
      (''T5'', [(''g'', 10), (''r'', 15), (''g'', 25), (''y'', 5)])]"

definition PHASE_3 :: "(tl_id \<times> pattern) list" where
  "PHASE_3 =
     [(''T1'', [(''rrr'', 30), (''ggg'', 10), (''yyy'', 5), (''rrr'', 15)]),
      (''T2'', [(''rr'', 60)]),
      (''T3'', [(''ggg'', 55), (''yyy'', 5)]),
      (''T4'', [(''rr'', 60)]),
      (''T5'', [(''g'', 10), (''r'', 15), (''g'', 25), (''y'', 5)])]"

definition PHASES :: "phase list" where
  "PHASES =
     [\<lparr>duration = 60, patterns = PHASE_1, name = ''Phase 1''\<rparr>,
      \<lparr>duration = 60, patterns = PHASE_2, name = ''Phase 2''\<rparr>,
      \<lparr>duration = 60, patterns = PHASE_3, name = ''Phase 3''\<rparr>]"

section \<open>The validator\<close>

text \<open>
  \<^verbatim>\<open>TRAFFIC_LIGHTS.get(tl_id, 0)\<close>: the configured length, 0 for an id that the
  mapping does not have.
\<close>

definition expected_len :: "tl_id \<Rightarrow> int" where
  "expected_len tl_id =
     (case map_of TRAFFIC_LIGHTS tl_id of None \<Rightarrow> 0 | Some n \<Rightarrow> n)"

text \<open>
  \<^verbatim>\<open>validate_state\<close>, lines 55 to 66. The diagnostic line it prints is console
  output and is not part of the returned value. No statement of the function can raise
  on a string argument, so the result is a plain string.
\<close>

definition validate_state :: "tl_id \<Rightarrow> string \<Rightarrow> string" where
  "validate_state tl_id state =
     (if int (length state) \<noteq> expected_len tl_id then
        (if expected_len tl_id = 3 then ''rrr''
         else if expected_len tl_id = 2 then ''rr''
         else ''r'')
      else state)"

section \<open>Resolution of the active segment\<close>

text \<open>
  The inner loop of lines 154 to 162: \<^verbatim>\<open>elapsed\<close> starts as the time in the phase,
  the first segment with \<^verbatim>\<open>elapsed < duration\<close> is the active one (the loop breaks
  there), otherwise the segment's duration is subtracted and the walk goes on. When the
  list is exhausted the loop ends without a match: \<^const>\<open>None\<close>.
\<close>

fun find_segment :: "int \<Rightarrow> pattern \<Rightarrow> string option" where
  "find_segment elapsed [] = None"
| "find_segment elapsed ((state, d) # rest) =
     (if elapsed < d then Some state else find_segment (elapsed - d) rest)"

text \<open>The sum of the durations of a program's segments.\<close>

definition total_duration :: "pattern \<Rightarrow> int" where
  "total_duration pattern = sum_list (map snd pattern)"

section \<open>The external simulator\<close>

text \<open>
  The TraCI library is the external collaborator. Its behaviour is a parameter of the
  model, the \<open>world\<close>: any call may raise, decided by \<open>fault\<close> from the number of
  calls made before it (the run is deterministic, so this covers every way in which
  calls can fail); \<open>id_list\<close> is what \<^verbatim>\<open>getIDList\<close> returns and
  \<open>min_expected\<close> what \<^verbatim>\<open>getMinExpectedNumber\<close> returns after the given number
  of completed simulation steps.

  Three kinds of exception are told apart, as the handlers of lines 181 to 196 do:
  \<^verbatim>\<open>FatalTraCIError\<close>, any other subclass of \<^verbatim>\<open>Exception\<close>, and a
  \<^verbatim>\<open>BaseException\<close> that is no \<^verbatim>\<open>Exception\<close> (such as KeyboardInterrupt).
\<close>

datatype exc = FatalTraCIError | OtherException | BaseOnly

record world =
  fault :: "nat \<Rightarrow> exc option"
  id_list :: "tl_id list"
  min_expected :: "nat \<Rightarrow> int"
  initial_lights :: "tl_id \<Rightarrow> string"

text \<open>
  The state of the simulator as the controller can observe it: the signal string each
  light shows (changed only by a successful \<^verbatim>\<open>setRedYellowGreenState\<close>), the
  completed simulation steps, and three logs: the number of calls made, the invocations
  of \<^verbatim>\<open>setRedYellowGreenState\<close> in order (logged at the invocation, whether it
  then raises or not), and the number of invocations of \<^verbatim>\<open>close\<close>.
\<close>

record sim =
  calls :: nat
  steps_done :: nat
  lights :: "tl_id \<Rightarrow> string"
  pushed :: "(tl_id \<times> string) list"
  closes :: nat

definition traci_call :: "world \<Rightarrow> sim \<Rightarrow> exc option \<times> sim" where
  "traci_call w s = (fault w (calls s), s\<lparr>calls := Suc (calls s)\<rparr>)"

definition traci_start :: "world \<Rightarrow> exc option \<times> sim" where
  "traci_start w =
     traci_call w \<lparr>calls = 0, steps_done = 0, lights = initial_lights w,
                   pushed = [], closes = 0\<rparr>"

definition getIDList :: "world \<Rightarrow> sim \<Rightarrow> (exc + tl_id list) \<times> sim" where
  "getIDList w s =
     (case traci_call w s of
        (Some e, s') \<Rightarrow> (Inl e, s')
      | (None, s') \<Rightarrow> (Inr (id_list w), s'))"

definition setProgram :: "world \<Rightarrow> tl_id \<Rightarrow> sim \<Rightarrow> exc option \<times> sim" where
  "setProgram w tl_id s = traci_call w s"

definition simulationStep :: "world \<Rightarrow> sim \<Rightarrow> exc option \<times> sim" where
  "simulationStep w s =
     (case traci_call w s of
        (Some e, s') \<Rightarrow> (Some e, s')
      | (None, s') \<Rightarrow> (None, s'\<lparr>steps_done := Suc (steps_done s')\<rparr>))"

definition getMinExpectedNumber :: "world \<Rightarrow> sim \<Rightarrow> (exc + int) \<times> sim" where
  "getMinExpectedNumber w s =
     (case traci_call w s of
        (Some e, s') \<Rightarrow> (Inl e, s')
      | (None, s') \<Rightarrow> (Inr (min_expected w (steps_done s')), s'))"

definition getRedYellowGreenState :: "world \<Rightarrow> tl_id \<Rightarrow> sim \<Rightarrow> (exc + string) \<times> sim" where
  "getRedYellowGreenState w tl_id s =
     (case traci_call w s of
        (Some e, s') \<Rightarrow> (Inl e, s')
      | (None, s') \<Rightarrow> (Inr (lights s' tl_id), s'))"

definition setRedYellowGreenState ::
    "world \<Rightarrow> tl_id \<Rightarrow> string \<Rightarrow> sim \<Rightarrow> exc option \<times> sim" where
  "setRedYellowGreenState w tl_id state s =
     (case traci_call w (s\<lparr>pushed := pushed s @ [(tl_id, state)]\<rparr>) of
        (Some e, s') \<Rightarrow> (Some e, s')
      | (None, s') \<Rightarrow> (None, s'\<lparr>lights := (lights s')(tl_id := state)\<rparr>))"

definition traci_close :: "world \<Rightarrow> sim \<Rightarrow> exc option \<times> sim" where
  "traci_close w s = traci_call w (s\<lparr>closes := Suc (closes s)\<rparr>)"

section \<open>The control loop\<close>

text \<open>
  Lines 87 to 94: the configured ids that the network has, in the order of the
  configuration; control is taken of each one with \<^verbatim>\<open>setProgram\<close>.
\<close>

fun take_control ::
    "world \<Rightarrow> tl_id list \<Rightarrow> tl_id list \<Rightarrow> tl_id list \<Rightarrow> sim \<Rightarrow> (exc + tl_id list) \<times> sim" where
  "take_control w all_tls [] existing_tls s = (Inr existing_tls, s)"
| "take_control w all_tls (tl_id # rest) existing_tls s =
     (if tl_id \<in> set all_tls then
        (case setProgram w tl_id s of
           (Some e, s') \<Rightarrow> (Inl e, s')
         | (None, s') \<Rightarrow> take_control w all_tls rest (existing_tls @ [tl_id]) s')
      else take_control w all_tls rest existing_tls s)"

text \<open>
  Lines 114 to 121 and again lines 139 to 146 (the source has the same loop twice): the
  validated string of the first segment of every controlled intersection that has a
  non-empty program in the phase is pushed, without reading the light first.
\<close>

fun push_first_segments ::
    "world \<Rightarrow> (tl_id \<times> pattern) list \<Rightarrow> tl_id list \<Rightarrow> sim \<Rightarrow> exc option \<times> sim" where
  "push_first_segments w pats [] s = (None, s)"
| "push_first_segments w pats (tl_id # rest) s =
     (case map_of pats tl_id of
        None \<Rightarrow> push_first_segments w pats rest s
      | Some [] \<Rightarrow> push_first_segments w pats rest s
      | Some ((state, d) # _) \<Rightarrow>
          (case setRedYellowGreenState w tl_id (validate_state tl_id state) s of
             (Some e, s') \<Rightarrow> (Some e, s')
           | (None, s') \<Rightarrow> push_first_segments w pats rest s'))"

text \<open>
  Lines 150 to 162 for one intersection: the segment walk with the given elapsed time;
  at the active segment the validated string is compared with the string the simulator
  reports and pushed only when they differ. No active segment, no call.
\<close>

definition update_light ::
    "world \<Rightarrow> (tl_id \<times> pattern) list \<Rightarrow> int \<Rightarrow> tl_id \<Rightarrow> sim \<Rightarrow> exc option \<times> sim" where
  "update_light w pats time_in_phase tl_id s =
     (case map_of pats tl_id of
        None \<Rightarrow> (None, s)
      | Some pattern \<Rightarrow>
          (case find_segment time_in_phase pattern of
             None \<Rightarrow> (None, s)
           | Some state \<Rightarrow>
               (case getRedYellowGreenState w tl_id s of
                  (Inl e, s') \<Rightarrow> (Some e, s')
                | (Inr current_state, s') \<Rightarrow>
                    if current_state \<noteq> validate_state tl_id state
                    then setRedYellowGreenState w tl_id (validate_state tl_id state) s'
                    else (None, s'))))"

text \<open>Line 149: the loop over the controlled intersections.\<close>

fun update_lights ::
    "world \<Rightarrow> (tl_id \<times> pattern) list \<Rightarrow> int \<Rightarrow> tl_id list \<Rightarrow> sim \<Rightarrow> exc option \<times> sim" where
  "update_lights w pats time_in_phase [] s = (None, s)"
| "update_lights w pats time_in_phase (tl_id # rest) s =
     (case update_light w pats time_in_phase tl_id s of
        (Some e, s') \<Rightarrow> (Some e, s')
      | (None, s') \<Rightarrow> update_lights w pats time_in_phase rest s')"

text \<open>
  Lines 167 to 172: the status report reads every light inside a \<^verbatim>\<open>try\<close> whose bare
  \<^verbatim>\<open>except\<close> swallows whatever the read raises. The reads leave the model unchanged
  but for the call count, so the order of \<^verbatim>\<open>sorted\<close> makes no difference; the
  printed text is not modelled.
\<close>

fun status_reads :: "world \<Rightarrow> tl_id list \<Rightarrow> sim \<Rightarrow> sim" where
  "status_reads w [] s = s"
| "status_reads w (tl_id # rest) s =
     status_reads w rest (snd (getRedYellowGreenState w tl_id s))"

text \<open>
  The variables of the loop. \<open>iterations\<close> is not a variable of the source: it counts
  the entries into the loop body.
\<close>

record run_state =
  step :: int
  current_phase :: nat
  phase_start_time :: int
  iterations :: nat

definition initial_run :: run_state where
  "initial_run = \<lparr>step = 0, current_phase = 0, phase_start_time = 0, iterations = 0\<rparr>"

text \<open>Line 127, and the test of line 131.\<close>

definition time_in_phase :: "run_state \<Rightarrow> int" where
  "time_in_phase r = step r - phase_start_time r"

definition phase_elapsed :: "run_state \<Rightarrow> bool" where
  "phase_elapsed r \<longleftrightarrow> time_in_phase r \<ge> duration (PHASES ! current_phase r)"

text \<open>Lines 132 and 133.\<close>

definition next_phase :: "run_state \<Rightarrow> run_state" where
  "next_phase r =
     r\<lparr>current_phase := (current_phase r + 1) mod length PHASES,
       phase_start_time := step r\<rparr>"

text \<open>
  The body of the loop, lines 125 to 177. \<^verbatim>\<open>time_in_phase\<close> is computed once, at
  line 127, from the run state at the entry of the body, and line 154 reads that same
  variable: the source does not assign it again after line 133.
  \<^verbatim>\<open>PHASES[current_phase]\<close> raises IndexError for an index beyond the list.
\<close>

definition loop_body ::
    "world \<Rightarrow> tl_id list \<Rightarrow> run_state \<Rightarrow> sim \<Rightarrow> exc option \<times> run_state \<times> sim" where
  "loop_body w existing_tls r s =
     (case simulationStep w s of
        (Some e, s1) \<Rightarrow> (Some e, r, s1)
      | (None, s1) \<Rightarrow>
          if current_phase r \<ge> length PHASES then (Some OtherException, r, s1)
          else
            (case (if phase_elapsed r
                   then (case push_first_segments w
                                 (patterns (PHASES ! current_phase (next_phase r)))
                                 existing_tls s1 of
                           (x, s2) \<Rightarrow> (x, next_phase r, s2))
                   else (None, r, s1)) of
               (Some e, r2, s2) \<Rightarrow> (Some e, r2, s2)
             | (None, r2, s2) \<Rightarrow>
                 (case update_lights w (patterns (PHASES ! current_phase r2))
                         (time_in_phase r) existing_tls s2 of
                    (Some e, s3) \<Rightarrow> (Some e, r2, s3)
                  | (None, s3) \<Rightarrow>
                      (None, r2\<lparr>step := step r2 + 1\<rparr>,
                       if step r2 mod 30 = 0 then status_reads w existing_tls s3 else s3))))"

text \<open>
  The loop of line 124. \<^verbatim>\<open>and\<close> evaluates its second operand only when the first
  holds, so the simulator is not asked once the budget is used up.
\<close>

function main_loop ::
    "world \<Rightarrow> tl_id list \<Rightarrow> run_state \<Rightarrow> sim \<Rightarrow> exc option \<times> run_state \<times> sim" where
  "main_loop w existing_tls r s =
     (if step r < SIMULATION_TIME then
        (case getMinExpectedNumber w s of
           (Inl e, s1) \<Rightarrow> (Some e, r, s1)
         | (Inr n, s1) \<Rightarrow>
             if n > 0 then
               (case loop_body w existing_tls (r\<lparr>iterations := Suc (iterations r)\<rparr>) s1 of
                  (Some e, r2, s2) \<Rightarrow> (Some e, r2, s2)
                | (None, r2, s2) \<Rightarrow> main_loop w existing_tls r2 s2)
             else (None, r, s1))
      else (None, r, s))"
  by pat_completeness auto
termination
  by (relation "measure (\<lambda>(w, tls, r, s). nat (SIMULATION_TIME - step r))")
     (auto simp: loop_body_def next_phase_def split: prod.splits option.splits if_splits)

declare main_loop.simps [simp del]

text \<open>
  How the \<^verbatim>\<open>try\<close> block of lines 77 to 179 ends: the loop is left and line 179 is
  reached, the function returns at line 99 because no configured light exists, or an
  exception is raised.
\<close>

datatype ending = Finished | Returned | Raised exc

definition try_block :: "world \<Rightarrow> ending \<times> run_state \<times> sim" where
  "try_block w =
     (case traci_start w of
        (Some e, s0) \<Rightarrow> (Raised e, initial_run, s0)
      | (None, s0) \<Rightarrow>
     (case getIDList w s0 of
        (Inl e, s1) \<Rightarrow> (Raised e, initial_run, s1)
      | (Inr all_tls, s1) \<Rightarrow>
     (case take_control w all_tls (map fst TRAFFIC_LIGHTS) [] s1 of
        (Inl e, s2) \<Rightarrow> (Raised e, initial_run, s2)
      | (Inr existing_tls, s2) \<Rightarrow>
          if existing_tls = [] then
            (case traci_close w s2 of
               (Some e, s3) \<Rightarrow> (Raised e, initial_run, s3)
             | (None, s3) \<Rightarrow> (Returned, initial_run, s3))
          else
     (case simulationStep w s2 of
        (Some e, s3) \<Rightarrow> (Raised e, initial_run, s3)
      | (None, s3) \<Rightarrow>
     (case push_first_segments w (patterns (PHASES ! 0)) existing_tls s3 of
        (Some e, s4) \<Rightarrow> (Raised e, initial_run, s4)
      | (None, s4) \<Rightarrow>
     (case main_loop w existing_tls initial_run s4 of
        (Some e, r, s5) \<Rightarrow> (Raised e, r, s5)
      | (None, r, s5) \<Rightarrow> (Finished, r, s5)))))))"

text \<open>
  Lines 181 to 190: both handlers only print. An exception that is no
  \<^verbatim>\<open>Exception\<close> passes them and leaves the function once \<^verbatim>\<open>finally\<close> is done.
\<close>

fun propagated :: "ending \<Rightarrow> exc option" where
  "propagated (Raised BaseOnly) = Some BaseOnly"
| "propagated (Raised FatalTraCIError) = None"
| "propagated (Raised OtherException) = None"
| "propagated Finished = None"
| "propagated Returned = None"

text \<open>
  \<^verbatim>\<open>run_simulation\<close>: the \<^verbatim>\<open>try\<close> block, the handlers, and the \<^verbatim>\<open>finally\<close>
  clause of lines 191 to 196, whose bare \<^verbatim>\<open>except\<close> drops whatever \<^verbatim>\<open>close\<close>
  raises. The result is the exception that leaves the function, if any, with the way
  the \<^verbatim>\<open>try\<close> block ended, the loop variables and the simulator at the end.
\<close>

definition run_simulation :: "world \<Rightarrow> exc option \<times> ending \<times> run_state \<times> sim" where
  "run_simulation w =
     (case try_block w of
        (e, r, s) \<Rightarrow> (propagated e, e, r, snd (traci_close w s)))"

text \<open>
  What lines 150 to 157 resolve for an intersection: the validated string of the active
  segment, if the intersection has a program in the phase and the walk finds a segment.
\<close>

definition resolve_state :: "(tl_id \<times> pattern) list \<Rightarrow> int \<Rightarrow> tl_id \<Rightarrow> string option" where
  "resolve_state pats elapsed tl_id =
     (case map_of pats tl_id of
        None \<Rightarrow> None
      | Some pattern \<Rightarrow> map_option (validate_state tl_id) (find_segment elapsed pattern))"

text \<open>
  The invocations of \<^verbatim>\<open>setRedYellowGreenState\<close> that the loop of lines 139 to 146
  (and of lines 114 to 121) makes when none of them raises: for every controlled
  intersection with a non-empty program, in order, the validated string of the first
  segment.
\<close>

fun first_segment_pushes :: "(tl_id \<times> pattern) list \<Rightarrow> tl_id list \<Rightarrow> (tl_id \<times> string) list" where
  "first_segment_pushes pats [] = []"
| "first_segment_pushes pats (tl_id # rest) =
     (case map_of pats tl_id of
        None \<Rightarrow> first_segment_pushes pats rest
      | Some [] \<Rightarrow> first_segment_pushes pats rest
      | Some ((state, d) # _) \<Rightarrow>
          (tl_id, validate_state tl_id state) # first_segment_pushes pats rest)"

text \<open>What the lights show once the given pushes, in order, have succeeded.\<close>

fun after_pushes :: "(tl_id \<times> string) list \<Rightarrow> (tl_id \<Rightarrow> string) \<Rightarrow> (tl_id \<Rightarrow> string)" where
  "after_pushes [] shown = shown"
| "after_pushes ((tl_id, state) # rest) shown = after_pushes rest (shown(tl_id := state))"

section \<open>Concrete simulators\<close>

text \<open>
  A simulator on which no call fails: its network has the given lights, all showing the
  empty string at the start, and it reports one remaining vehicle until more than
  \<open>n\<close> simulation steps are done, none from then on.
\<close>

definition quiet_world :: "tl_id list \<Rightarrow> nat \<Rightarrow> world" where
  "quiet_world ids n =
     \<lparr>fault = (\<lambda>k. None), id_list = ids,
      min_expected = (\<lambda>t. if t \<le> n then 1 else 0),
      initial_lights = (\<lambda>tl. [])\<rparr>"

text \<open>
  A simulator with the light T3 that always reports one remaining vehicle and whose
  seventh call fails fatally. The calls of a run are, in order: start, getIDList,
  setProgram of T3, the first simulationStep, the initial push to T3,
  getMinExpectedNumber, and as seventh the simulationStep of the first loop iteration.
\<close>

definition crash_world :: world where
  "crash_world =
     \<lparr>fault = (\<lambda>k. if k = 6 then Some FatalTraCIError else None), id_list = [''T3''],
      min_expected = (\<lambda>t. 1),
      initial_lights = (\<lambda>tl. [])\<rparr>"

text \<open>
  A simulator whose network has none of the configured lights and whose fourth call
  fails. The calls of a run are, in order: start, getIDList, close at line 98, and as
  fourth the close of the \<^verbatim>\<open>finally\<close> clause.
\<close>

definition stuck_world :: world where
  "stuck_world =
     \<lparr>fault = (\<lambda>k. if k = 3 then Some BaseOnly else None), id_list = [],
      min_expected = (\<lambda>t. 1),
      initial_lights = (\<lambda>tl. [])\<rparr>"

text \<open>The simulator state in which all five lights show the last string of phase 1.\<close>

definition end_of_phase_1 :: sim where
  "end_of_phase_1 =
     \<lparr>calls = 0, steps_done = 61,
      lights = (\<lambda>tl. if tl = ''T1'' then ''yyy'' else if tl = ''T2'' then ''rr''
                      else if tl = ''T3'' then ''rrr'' else if tl = ''T4'' then ''yy''
                      else ''y''),
      pushed = [], closes = 0\<rparr>"

text \<open>
  The simulator state in which the five lights show what phase 1 resolves at elapsed
  time 14, and the loop variables at the entry of the iteration with step 15.
\<close>

definition before_tick_15 :: sim where
  "before_tick_15 =
     \<lparr>calls = 0, steps_done = 16,
      lights = (\<lambda>tl. if tl = ''T1'' then ''rrr'' else if tl = ''T2'' then ''rr''
                      else if tl = ''T3'' then ''rrr'' else if tl = ''T4'' then ''gg''
                      else ''r''),
      pushed = [], closes = 0\<rparr>"

definition tick_15 :: run_state where
  "tick_15 = \<lparr>step = 15, current_phase = 0, phase_start_time = 0, iterations = 16\<rparr>"

text \<open>
  The loop variables at the entry of the iteration with step 60, the first one on which
  the test of line 131 holds.
\<close>

definition tick_60 :: run_state where
  "tick_60 = \<lparr>step = 60, current_phase = 0, phase_start_time = 0, iterations = 61\<rparr>"

section \<open>Properties of the validator\<close>

lemma expected_len_cases:
  "map_of TRAFFIC_LIGHTS tl_id = Some n \<Longrightarrow> n = 1 \<or> n = 2 \<or> n = 3"
  by (auto simp: TRAFFIC_LIGHTS_def split: if_splits)

text \<open>
  Claim C5, as the code has it. For every intersection id of the configured mapping
  \<^const>\<open>TRAFFIC_LIGHTS\<close> and every candidate string whose length differs from the
  id's expected length, the validator returns the all-red string of exactly the expected
  length (the expected number of copies of the character r), and it raises no exception:
  when the candidate is the active segment of the intersection and the simulator accepts
  the read and the push, the resolution for that intersection (lines 150 to 162) ends
  without an exception and the light shows the fallback string.
\<close>

theorem validate_state_fallback:
  assumes "tl_id \<in> fst ` set TRAFFIC_LIGHTS"
    and "int (length state) \<noteq> expected_len tl_id"
  shows "validate_state tl_id state = replicate (nat (expected_len tl_id)) CHR ''r''
         \<and> int (length (validate_state tl_id state)) = expected_len tl_id
         \<and> set (validate_state tl_id state) = {CHR ''r''}
         \<and> (map_of pats tl_id = Some pattern \<and> find_segment elapsed pattern = Some state
              \<and> fault w (calls s) = None \<and> fault w (Suc (calls s)) = None
             \<longrightarrow> fst (update_light w pats elapsed tl_id s) = None
                 \<and> lights (snd (update_light w pats elapsed tl_id s)) tl_id
                     = replicate (nat (expected_len tl_id)) CHR ''r'')"
proof -
  from assms(1) obtain n where n: "map_of TRAFFIC_LIGHTS tl_id = Some n"
    by (auto simp: TRAFFIC_LIGHTS_def)
  then have e: "expected_len tl_id = n"
    by (simp add: expected_len_def)
  from n have r: "n = 1 \<or> n = 2 \<or> n = 3"
    by (rule expected_len_cases)
  have v: "validate_state tl_id state = replicate (nat n) CHR ''r''"
    using assms(2) r by (auto simp: validate_state_def e numeral_eq_Suc)
  from r have "0 < nat n" by auto
  with v r have shape: "validate_state tl_id state = replicate (nat (expected_len tl_id)) CHR ''r''
         \<and> int (length (validate_state tl_id state)) = expected_len tl_id
         \<and> set (validate_state tl_id state) = {CHR ''r''}"
    by (auto simp: e)
  have run: "fst (update_light w pats elapsed tl_id s) = None
       \<and> lights (snd (update_light w pats elapsed tl_id s)) tl_id = validate_state tl_id state"
    if "map_of pats tl_id = Some pattern" "find_segment elapsed pattern = Some state"
      "fault w (calls s) = None" "fault w (Suc (calls s)) = None"
    using that
    by (simp add: update_light_def getRedYellowGreenState_def setRedYellowGreenState_def
          traci_call_def)
  from r e have "nat (expected_len tl_id) \<noteq> 0" by auto
  with shape run show ?thesis by simp
qed

theorem validate_state_fallback_witness:
  "''T1'' \<in> fst ` set TRAFFIC_LIGHTS \<and> int (length ''gg'') \<noteq> expected_len ''T1''
   \<and> validate_state ''T1'' ''gg'' = ''rrr''
   \<and> map_of [(''T1'', [(''gg'', 10)])] ''T1'' = Some [(''gg'', 10)]
   \<and> find_segment 0 [(''gg'', 10)] = Some ''gg''
   \<and> fault (quiet_world [] 0) (calls end_of_phase_1) = None
   \<and> fault (quiet_world [] 0) (Suc (calls end_of_phase_1)) = None
   \<and> fst (update_light (quiet_world [] 0) [(''T1'', [(''gg'', 10)])] 0 ''T1'' end_of_phase_1)
       = None
   \<and> lights (snd (update_light (quiet_world [] 0) [(''T1'', [(''gg'', 10)])] 0 ''T1''
        end_of_phase_1)) ''T1'' = ''rrr''"
proof -
  have a: "''T1'' \<in> fst ` set TRAFFIC_LIGHTS"
    by (simp add: TRAFFIC_LIGHTS_def)
  have b: "int (length ''gg'') \<noteq> expected_len ''T1''"
    by (simp add: expected_len_def TRAFFIC_LIGHTS_def)
  have c: "expected_len ''T1'' = 3"
    by (simp add: expected_len_def TRAFFIC_LIGHTS_def)
  have d: "map_of [(''T1'', [(''gg'', 10)])] ''T1'' = Some [(''gg'', 10)]"
    "find_segment 0 [(''gg'', 10)] = Some ''gg''"
    "fault (quiet_world [] 0) (calls end_of_phase_1) = None"
    "fault (quiet_world [] 0) (Suc (calls end_of_phase_1)) = None"
    by (simp_all add: quiet_world_def)
  from validate_state_fallback [OF a b, of "[(''T1'', [(''gg'', 10)])]" "[(''gg'', 10)]" 0
         "quiet_world [] 0" end_of_phase_1] a b c d
  show ?thesis
    by (simp add: numeral_eq_Suc)
qed

text \<open>
  The claim as stated, for every id, fails for an id that the configured mapping does not
  have: its expected length is the default 0, and the fallback for the three-character
  candidate is the one-character string r, whose length is not the expected 0.
\<close>

theorem validate_state_absent_id_counterexample:
  "int (length ''ggg'') \<noteq> expected_len ''T9''
   \<and> validate_state ''T9'' ''ggg'' = ''r''
   \<and> int (length (validate_state ''T9'' ''ggg'')) \<noteq> expected_len ''T9''"
  by (simp add: validate_state_def expected_len_def TRAFFIC_LIGHTS_def)

text \<open>
  Claim C6. Whenever the length of the candidate string equals the expected length of
  the intersection id, the validator returns the candidate unchanged.
\<close>

theorem validate_state_identity:
  "int (length state) = expected_len tl_id \<Longrightarrow> validate_state tl_id state = state"
  by (simp add: validate_state_def)

theorem validate_state_identity_witness:
  "int (length ''gy'') = expected_len ''T4'' \<and> validate_state ''T4'' ''gy'' = ''gy''"
proof -
  have a: "int (length ''gy'') = expected_len ''T4''"
    by (simp add: expected_len_def TRAFFIC_LIGHTS_def)
  from validate_state_identity [OF a] a show ?thesis
    by simp
qed

text \<open>
  Claim C10. For an id that the configured mapping does not have, the expected length
  is the default 0; every non-empty candidate takes the fallback branch and the result
  is the one-character string r (length 1, not 0), and the empty candidate is returned
  unchanged.
\<close>

theorem validate_state_unknown_id:
  assumes "map_of TRAFFIC_LIGHTS tl_id = None"
  shows "expected_len tl_id = 0
         \<and> (state \<noteq> [] \<longrightarrow> validate_state tl_id state = ''r''
              \<and> length (validate_state tl_id state) = 1)
         \<and> validate_state tl_id [] = []"
  using assms by (simp add: expected_len_def validate_state_def)

theorem validate_state_unknown_id_witness:
  "map_of TRAFFIC_LIGHTS ''T9'' = None \<and> expected_len ''T9'' = 0
   \<and> validate_state ''T9'' ''ggg'' = ''r'' \<and> validate_state ''T9'' [] = []"
proof -
  have a: "map_of TRAFFIC_LIGHTS ''T9'' = None"
    by (simp add: TRAFFIC_LIGHTS_def)
  from validate_state_unknown_id [OF a, of "''ggg''"] a show ?thesis
    by simp
qed

section \<open>Properties of the configured schedule\<close>

lemma program_sum:
  assumes "P \<in> set PHASES" and "map_of (patterns P) tl_id = Some pattern"
  shows "total_duration pattern = (if tl_id = ''T5'' then 55 else duration P)"
  using assms
  by (auto simp: PHASES_def PHASE_1_def PHASE_2_def PHASE_3_def total_duration_def
           split: if_splits)

lemma find_segment_within:
  "0 \<le> elapsed \<Longrightarrow> elapsed < total_duration pattern \<Longrightarrow>
     \<exists>state. find_segment elapsed pattern = Some state \<and> state \<in> fst ` set pattern"
proof (induction elapsed pattern rule: find_segment.induct)
  case (1 elapsed)
  then show ?case by (simp add: total_duration_def)
next
  case (2 elapsed state d rest)
  show ?case
  proof (cases "elapsed < d")
    case True
    then show ?thesis by simp
  next
    case False
    with "2.prems" have "0 \<le> elapsed - d" and "elapsed - d < total_duration rest"
      by (simp_all add: total_duration_def)
    with "2.IH" False obtain st where "find_segment (elapsed - d) rest = Some st"
      and "st \<in> fst ` set rest" by blast
    with False show ?thesis by auto
  qed
qed

text \<open>
  Claim C2, as the code has it. For every phase of \<^const>\<open>PHASES\<close> and every
  intersection with a program in it, the durations of the program's segments sum to the
  duration of the phase, 60, except for T5: its program sums to 55 in every phase, as the
  comment beside it in the source says.
\<close>

theorem segment_sums:
  assumes "P \<in> set PHASES" and "map_of (patterns P) tl_id = Some pattern"
  shows "total_duration pattern = (if tl_id = ''T5'' then 55 else duration P)"
  using assms by (rule program_sum)

theorem segment_sums_witness:
  "PHASES ! 2 \<in> set PHASES
   \<and> map_of (patterns (PHASES ! 2)) ''T1''
       = Some [(''rrr'', 30), (''ggg'', 10), (''yyy'', 5), (''rrr'', 15)]
   \<and> total_duration [(''rrr'', 30), (''ggg'', 10), (''yyy'', 5), (''rrr'', 15)]
       = duration (PHASES ! 2)"
proof -
  have a: "PHASES ! 2 \<in> set PHASES"
    by (simp add: PHASES_def)
  have b: "map_of (patterns (PHASES ! 2)) ''T1''
             = Some [(''rrr'', 30), (''ggg'', 10), (''yyy'', 5), (''rrr'', 15)]"
    by (simp add: PHASES_def PHASE_3_def)
  from segment_sums [OF a b] a b show ?thesis
    by simp
qed

text \<open>
  The claim as stated fails for T5 in the first phase: the segments last 55 ticks, the
  phase 60.
\<close>

theorem segment_sum_T5_counterexample:
  "PHASES ! 0 \<in> set PHASES
   \<and> map_of (patterns (PHASES ! 0)) ''T5''
       = Some [(''g'', 10), (''r'', 15), (''g'', 25), (''y'', 5)]
   \<and> total_duration [(''g'', 10), (''r'', 15), (''g'', 25), (''y'', 5)] = 55
   \<and> duration (PHASES ! 0) = 60"
  by (simp add: PHASES_def PHASE_1_def total_duration_def)

text \<open>
  Claim C3, as the code has it. For every phase of \<^const>\<open>PHASES\<close>, every
  intersection with a program in it and every elapsed time from 0 up to, but excluding,
  the duration of the phase (for T5: up to, but excluding, 55), the segment walk returns
  exactly one string, that of a segment of the program.
\<close>

theorem resolution_total:
  assumes "P \<in> set PHASES" and "map_of (patterns P) tl_id = Some pattern"
    and "0 \<le> elapsed" and "elapsed < (if tl_id = ''T5'' then 55 else duration P)"
  shows "\<exists>!state. find_segment elapsed pattern = Some state \<and> state \<in> fst ` set pattern"
proof -
  from assms(1,2) have "total_duration pattern = (if tl_id = ''T5'' then 55 else duration P)"
    by (rule program_sum)
  with assms(3,4) have "\<exists>state. find_segment elapsed pattern = Some state \<and> state \<in> fst ` set pattern"
    by (intro find_segment_within) simp_all
  then show ?thesis by auto
qed

theorem resolution_total_witness:
  "PHASES ! 0 \<in> set PHASES
   \<and> map_of (patterns (PHASES ! 0)) ''T5''
       = Some [(''g'', 10), (''r'', 15), (''g'', 25), (''y'', 5)]
   \<and> find_segment 54 [(''g'', 10), (''r'', 15), (''g'', 25), (''y'', 5)] = Some ''y''"
proof -
  have a: "PHASES ! 0 \<in> set PHASES"
    by (simp add: PHASES_def)
  have b: "map_of (patterns (PHASES ! 0)) ''T5''
             = Some [(''g'', 10), (''r'', 15), (''g'', 25), (''y'', 5)]"
    by (simp add: PHASES_def PHASE_1_def)
  have c: "(0::int) \<le> 54" and d: "(54::int) < (if ''T5'' = ''T5'' then 55 else duration (PHASES ! 0))"
    by simp_all
  from resolution_total [OF a b c d] a b show ?thesis
    by simp
qed

text \<open>
  The claim as stated fails for T5 at elapsed time 55, which is below the duration 60 of
  the phase: the walk exhausts the four segments without a match.
\<close>

theorem resolution_T5_counterexample:
  "PHASES ! 0 \<in> set PHASES
   \<and> map_of (patterns (PHASES ! 0)) ''T5''
       = Some [(''g'', 10), (''r'', 15), (''g'', 25), (''y'', 5)]
   \<and> (0::int) \<le> 55 \<and> 55 < duration (PHASES ! 0)
   \<and> find_segment 55 [(''g'', 10), (''r'', 15), (''g'', 25), (''y'', 5)] = None"
  by (simp add: PHASES_def PHASE_1_def)

section \<open>Phase transitions\<close>

text \<open>
  Claim C8. When the simulation step of an iteration succeeds, the current phase is the
  last one of the schedule (index N - 1 for the N phases of \<^const>\<open>PHASES\<close>) and
  the phase has elapsed, the phase index after the iteration is 0, and the phase starts
  at the current step.
\<close>

theorem wraparound:
  assumes "fault w (calls s) = None"
    and "current_phase r = length PHASES - 1"
    and "phase_elapsed r"
  shows "current_phase (fst (snd (loop_body w tls r s))) = 0
         \<and> phase_start_time (fst (snd (loop_body w tls r s))) = step r"
  using assms
  by (simp add: loop_body_def simulationStep_def traci_call_def next_phase_def PHASES_def
           split: prod.splits option.splits)

theorem wraparound_witness:
  "fault (quiet_world [] 0) (calls end_of_phase_1) = None
   \<and> current_phase \<lparr>step = 180, current_phase = 2, phase_start_time = 120, iterations = 181\<rparr>
       = length PHASES - 1
   \<and> phase_elapsed \<lparr>step = 180, current_phase = 2, phase_start_time = 120, iterations = 181\<rparr>
   \<and> current_phase (fst (snd (loop_body (quiet_world [] 0) [''T1'']
        \<lparr>step = 180, current_phase = 2, phase_start_time = 120, iterations = 181\<rparr>
        end_of_phase_1))) = 0"
proof -
  have a: "fault (quiet_world [] 0) (calls end_of_phase_1) = None"
    by (simp add: quiet_world_def)
  have b: "current_phase \<lparr>step = 180, current_phase = 2, phase_start_time = 120, iterations = 181\<rparr>
       = length PHASES - 1"
    by (simp add: PHASES_def)
  have c: "phase_elapsed \<lparr>step = 180, current_phase = 2, phase_start_time = 120, iterations = 181\<rparr>"
    by (simp add: phase_elapsed_def time_in_phase_def PHASES_def)
  from wraparound [OF a b c, of "[''T1'']"] a b c show ?thesis
    by simp
qed

text \<open>
  Claim C1, evaluated on the code. At step 60 of the first phase the boundary is crossed:
  the iteration moves to phase index 1 and sets the start of the phase to 60, so the
  time in the new phase is 0. The resolution of the same iteration is nevertheless run
  with the value computed at line 127, which is 60: it finds no active segment in the
  programs of the new phase and makes no call at all, where a resolution at elapsed
  time 0 reads both lights and makes four calls. The five calls of the iteration are the
  simulation step, the two pushes of the transition block and the two reads of the
  status report.
\<close>

theorem transition_tick_stale_elapsed:
  "phase_elapsed tick_60
   \<and> time_in_phase tick_60 = 60
   \<and> time_in_phase (next_phase tick_60) = 0
   \<and> fst (snd (loop_body (quiet_world [] 0) [''T2'', ''T5''] tick_60 end_of_phase_1))
       = \<lparr>step = 61, current_phase = 1, phase_start_time = 60, iterations = 61\<rparr>
   \<and> pushed (snd (snd (loop_body (quiet_world [] 0) [''T2'', ''T5''] tick_60 end_of_phase_1)))
       = [(''T2'', ''gg''), (''T5'', ''g'')]
   \<and> calls (snd (snd (loop_body (quiet_world [] 0) [''T2'', ''T5''] tick_60 end_of_phase_1)))
       = 5
   \<and> calls (snd (update_lights (quiet_world [] 0) (patterns (PHASES ! 1))
         (time_in_phase tick_60) [''T2'', ''T5''] end_of_phase_1)) = 0
   \<and> calls (snd (update_lights (quiet_world [] 0) (patterns (PHASES ! 1))
         (time_in_phase (next_phase tick_60)) [''T2'', ''T5''] end_of_phase_1)) = 4"
proof -
  have 1: "phase_elapsed tick_60"
    by (simp add: phase_elapsed_def time_in_phase_def tick_60_def PHASES_def)
  have 2: "time_in_phase tick_60 = 60"
    by (simp add: time_in_phase_def tick_60_def)
  have 3: "time_in_phase (next_phase tick_60) = 0"
    by (simp add: time_in_phase_def next_phase_def tick_60_def)
  have 4: "fst (snd (loop_body (quiet_world [] 0) [''T2'', ''T5''] tick_60 end_of_phase_1))
       = \<lparr>step = 61, current_phase = 1, phase_start_time = 60, iterations = 61\<rparr>"
    by code_simp
  have 5: "pushed (snd (snd (loop_body (quiet_world [] 0) [''T2'', ''T5''] tick_60
             end_of_phase_1))) = [(''T2'', ''gg''), (''T5'', ''g'')]"
    by code_simp
  have 6: "calls (snd (snd (loop_body (quiet_world [] 0) [''T2'', ''T5''] tick_60
             end_of_phase_1))) = 5"
    by code_simp
  have 7: "calls (snd (update_lights (quiet_world [] 0) (patterns (PHASES ! 1))
         (time_in_phase tick_60) [''T2'', ''T5''] end_of_phase_1)) = 0"
    by code_simp
  have 8: "calls (snd (update_lights (quiet_world [] 0) (patterns (PHASES ! 1))
         (time_in_phase (next_phase tick_60)) [''T2'', ''T5''] end_of_phase_1)) = 4"
    by code_simp
  from 1 2 3 4 5 6 7 8 show ?thesis by (intro conjI)
qed

section \<open>Change suppression\<close>

lemma update_light_effect:
  assumes "update_light w pats e i s = (x, s')"
  shows "(pushed s' = pushed s \<and> lights s' = lights s)
         \<or> (\<exists>st. resolve_state pats e i = Some st \<and> st \<noteq> lights s i
               \<and> pushed s' = pushed s @ [(i, st)]
               \<and> (lights s' = lights s \<or> lights s' = (lights s)(i := st)))"
  using assms
  by (auto simp: update_light_def resolve_state_def getRedYellowGreenState_def
        setRedYellowGreenState_def traci_call_def
      split: option.splits prod.splits sum.splits if_splits)

lemma update_light_step:
  assumes u: "update_light w pats e i s = (x, s')"
    and inv: "\<forall>t. lights s t = L t \<or> resolve_state pats e t = Some (lights s t)"
  shows "\<exists>new. pushed s' = pushed s @ new
           \<and> (\<forall>(t, st) \<in> set new. t = i \<and> resolve_state pats e t = Some st \<and> st \<noteq> L t)"
    and "\<forall>t. lights s' t = L t \<or> resolve_state pats e t = Some (lights s' t)"
proof -
  from update_light_effect [OF u] show "\<exists>new. pushed s' = pushed s @ new
           \<and> (\<forall>(t, st) \<in> set new. t = i \<and> resolve_state pats e t = Some st \<and> st \<noteq> L t)"
  proof
    assume "pushed s' = pushed s \<and> lights s' = lights s"
    then have "pushed s' = pushed s @ []" by simp
    then show ?thesis by (intro exI [of _ "[]"]) simp
  next
    assume "\<exists>st. resolve_state pats e i = Some st \<and> st \<noteq> lights s i
               \<and> pushed s' = pushed s @ [(i, st)]
               \<and> (lights s' = lights s \<or> lights s' = (lights s)(i := st))"
    then obtain st where r: "resolve_state pats e i = Some st" and d: "st \<noteq> lights s i"
      and p: "pushed s' = pushed s @ [(i, st)]" by blast
    from inv r d have "st \<noteq> L i" by (metis option.inject)
    with r p show ?thesis by (intro exI [of _ "[(i, st)]"]) simp
  qed
  show "\<forall>t. lights s' t = L t \<or> resolve_state pats e t = Some (lights s' t)"
  proof
    fix t
    from inv have "lights s t = L t \<or> resolve_state pats e t = Some (lights s t)" ..
    with update_light_effect [OF u]
    show "lights s' t = L t \<or> resolve_state pats e t = Some (lights s' t)"
      by (cases "t = i") auto
  qed
qed

lemma update_lights_pushes:
  assumes "update_lights w pats e tls s = (x, s')"
    and "\<forall>t. lights s t = L t \<or> resolve_state pats e t = Some (lights s t)"
  shows "\<exists>new. pushed s' = pushed s @ new
           \<and> (\<forall>(t, st) \<in> set new. t \<in> set tls \<and> resolve_state pats e t = Some st \<and> st \<noteq> L t)"
  using assms
proof (induction tls arbitrary: s)
  case Nil
  then show ?case by simp
next
  case (Cons i rest)
  obtain y s1 where u: "update_light w pats e i s = (y, s1)"
    by (cases "update_light w pats e i s")
  from update_light_step [OF u Cons.prems(2)]
  obtain new1 where p1: "pushed s1 = pushed s @ new1"
    and n1: "\<forall>(t, st) \<in> set new1. t = i \<and> resolve_state pats e t = Some st \<and> st \<noteq> L t"
    and inv: "\<forall>t. lights s1 t = L t \<or> resolve_state pats e t = Some (lights s1 t)"
    by blast
  show ?case
  proof (cases y)
    case (Some err)
    with Cons.prems(1) u have "s' = s1" by simp
    with p1 n1 show ?thesis by (intro exI [of _ new1]) auto
  next
    case None
    with Cons.prems(1) u have "update_lights w pats e rest s1 = (x, s')" by simp
    from Cons.IH [OF this inv] obtain new2 where p2: "pushed s' = pushed s1 @ new2"
      and n2: "\<forall>(t, st) \<in> set new2. t \<in> set rest \<and> resolve_state pats e t = Some st \<and> st \<noteq> L t"
      by blast
    from p1 p2 n1 n2 show ?thesis by (intro exI [of _ "new1 @ new2"]) auto
  qed
qed

lemma status_reads_keeps:
  "pushed (status_reads w tls s) = pushed s"
  by (induction tls arbitrary: s)
     (simp_all add: getRedYellowGreenState_def traci_call_def split: prod.splits option.splits)

lemma push_first_segments_log:
  assumes "push_first_segments w pats tls s = (x, s')"
  shows "\<exists>entry rest. pushed s' = pushed s @ entry
           \<and> first_segment_pushes pats tls = entry @ rest
           \<and> (x = None \<longrightarrow> rest = [] \<and> lights s' = after_pushes entry (lights s))"
  using assms
proof (induction tls arbitrary: s)
  case Nil
  then show ?case by simp
next
  case (Cons i tls)
  show ?case
  proof (cases "map_of pats i")
    case None
    with Cons.prems have "push_first_segments w pats tls s = (x, s')" by simp
    from Cons.IH [OF this] None show ?thesis by simp
  next
    case (Some pattern)
    show ?thesis
    proof (cases pattern)
      case Nil
      with Some Cons.prems have "push_first_segments w pats tls s = (x, s')" by simp
      from Cons.IH [OF this] Some Nil show ?thesis by simp
    next
      case (Cons seg more)
      obtain state d where seg: "seg = (state, d)" by (cases seg)
      let ?v = "validate_state i state"
      obtain y s1 where set: "setRedYellowGreenState w i ?v s = (y, s1)"
        by (cases "setRedYellowGreenState w i ?v s")
      from set have p1: "pushed s1 = pushed s @ [(i, ?v)]"
        by (auto simp: setRedYellowGreenState_def traci_call_def split: option.splits)
      from set have l1: "y = None \<longrightarrow> lights s1 = (lights s)(i := ?v)"
        by (auto simp: setRedYellowGreenState_def traci_call_def split: option.splits)
      have f: "first_segment_pushes pats (i # tls) = (i, ?v) # first_segment_pushes pats tls"
        using Some Cons seg by simp
      show ?thesis
      proof (cases y)
        case (Some e)
        with Cons.prems \<open>map_of pats i = Some pattern\<close> Cons seg set
        have "x = Some e" "s' = s1" by simp_all
        with p1 f show ?thesis
          by - (rule exI [of _ "[(i, ?v)]"], rule exI [of _ "first_segment_pushes pats tls"], simp)
      next
        case None
        with Cons.prems \<open>map_of pats i = Some pattern\<close> Cons seg set
        have "push_first_segments w pats tls s1 = (x, s')" by simp
        from Cons.IH [OF this] obtain entry rest where
          a: "pushed s' = pushed s1 @ entry"
          and b: "first_segment_pushes pats tls = entry @ rest"
          and c: "x = None \<longrightarrow> rest = [] \<and> lights s' = after_pushes entry (lights s1)"
          by blast
        from a b c p1 l1 None f show ?thesis
          by - (rule exI [of _ "(i, ?v) # entry"], rule exI [of _ rest], simp)
      qed
    qed
  qed
qed

text \<open>
  Claim C4, as the code has it. The invocations of \<^verbatim>\<open>setRedYellowGreenState\<close>
  of one iteration are, in order, those of the transition block and those of the
  resolution block (lines 149 to 162).

  The resolution block, on every iteration, invokes it for a controlled intersection
  only with the string resolved and validated for it, and only if that string differs
  from the string the light shows when the block starts (the last string pushed to it):
  a light that already shows its resolved string gets no push.

  The transition block makes no invocation unless the phase has elapsed (and the
  simulation step succeeded, with the phase index inside the schedule). When it has,
  the block pushes, without reading the lights,
  the validated first-segment strings of the new phase to the controlled intersections
  with a non-empty program, in order: all of them when the iteration ends without an
  exception, otherwise an initial part of them.
\<close>

theorem change_suppression:
  "\<exists>entry rest new.
      pushed (snd (snd (loop_body w tls r s))) = pushed s @ entry @ new
    \<and> (if phase_elapsed r \<and> fault w (calls s) = None \<and> current_phase r < length PHASES
        then first_segment_pushes (patterns (PHASES ! current_phase (next_phase r))) tls
               = entry @ rest
             \<and> (fst (loop_body w tls r s) = None \<longrightarrow> rest = [])
        else entry = [])
    \<and> (\<forall>(t, st) \<in> set new. t \<in> set tls
          \<and> resolve_state (patterns (PHASES ! current_phase (fst (snd (loop_body w tls r s)))))
               (time_in_phase r) t = Some st
          \<and> st \<noteq> after_pushes entry (lights s) t)"
proof -
  obtain a s1 where 1: "simulationStep w s = (a, s1)"
    by (cases "simulationStep w s")
  then have k: "pushed s1 = pushed s" "lights s1 = lights s" and a: "a = fault w (calls s)"
    by (auto simp: simulationStep_def traci_call_def split: option.splits)
  let ?L = "loop_body w tls r s"
  have none: "\<exists>entry rest new. pushed s' = pushed s @ entry @ new
      \<and> (if c then P entry rest else entry = [])
      \<and> (\<forall>(t, st) \<in> set new. Q t st entry)" if "pushed s' = pushed s" "\<not> c"
    for s' c P Q
    using that by - (rule exI [of _ "[]"], simp)
  show ?thesis
  proof (cases "a = None \<and> current_phase r < length PHASES")
    case False
    then have "pushed (snd (snd ?L)) = pushed s"
      using 1 k by (auto simp: loop_body_def split: option.splits)
    moreover from False a
    have "\<not> (phase_elapsed r \<and> fault w (calls s) = None \<and> current_phase r < length PHASES)"
      by auto
    ultimately show ?thesis by (rule none)
  next
    case True
    then have ok: "a = None" "current_phase r < length PHASES" by simp_all
    show ?thesis
    proof (cases "phase_elapsed r")
      case False
      let ?pats = "patterns (PHASES ! current_phase r)"
      obtain x s3 where 2: "update_lights w ?pats (time_in_phase r) tls s1 = (x, s3)"
        by (cases "update_lights w ?pats (time_in_phase r) tls s1")
      from update_lights_pushes [OF 2, of "lights s"] k
      obtain new where n: "pushed s3 = pushed s @ new"
        and q: "\<forall>(t, st) \<in> set new. t \<in> set tls
                 \<and> resolve_state ?pats (time_in_phase r) t = Some st \<and> st \<noteq> lights s t"
        by auto
      have p: "pushed (snd (snd ?L)) = pushed s3"
        and c: "current_phase (fst (snd ?L)) = current_phase r"
        using False ok 1 2
        by (auto simp: loop_body_def status_reads_keeps split: option.splits)
      from False p c n q show ?thesis
        by - (rule exI [of _ "[]"], rule exI [of _ new], simp)
    next
      case True
      let ?pats = "patterns (PHASES ! current_phase (next_phase r))"
      obtain x s2 where 2: "push_first_segments w ?pats tls s1 = (x, s2)"
        by (cases "push_first_segments w ?pats tls s1")
      from push_first_segments_log [OF 2] k obtain entry rest where
        e1: "pushed s2 = pushed s @ entry"
        and e2: "first_segment_pushes ?pats tls = entry @ rest"
        and e3: "x = None \<longrightarrow> rest = [] \<and> lights s2 = after_pushes entry (lights s)"
        by auto
      from True ok a
      have cond: "phase_elapsed r \<and> fault w (calls s) = None \<and> current_phase r < length PHASES"
        by simp
      show ?thesis
      proof (cases x)
        case (Some e)
        with True ok 1 2 have "pushed (snd (snd ?L)) = pushed s2" "fst ?L \<noteq> None"
          by (auto simp: loop_body_def)
        with e1 e2 cond show ?thesis
          by - (rule exI [of _ entry], rule exI [of _ rest], rule exI [of _ "[]"], auto)
      next
        case None
        with e3 have r0: "rest = []" and l2: "lights s2 = after_pushes entry (lights s)"
          by simp_all
        obtain y s3 where 3: "update_lights w ?pats (time_in_phase r) tls s2 = (y, s3)"
          by (cases "update_lights w ?pats (time_in_phase r) tls s2")
        from update_lights_pushes [OF 3, of "lights s2"]
        obtain new where n: "pushed s3 = pushed s2 @ new"
          and q: "\<forall>(t, st) \<in> set new. t \<in> set tls
                   \<and> resolve_state ?pats (time_in_phase r) t = Some st \<and> st \<noteq> lights s2 t"
          by auto
        have p: "pushed (snd (snd ?L)) = pushed s3"
          and c: "current_phase (fst (snd ?L)) = current_phase (next_phase r)"
          using True ok 1 2 3 None
          by (auto simp: loop_body_def status_reads_keeps split: option.splits)
        from p c n q e1 e2 r0 l2 cond show ?thesis
          by - (rule exI [of _ entry], rule exI [of _ rest], rule exI [of _ new], simp)
      qed
    qed
  qed
qed

theorem change_suppression_witness:
  "pushed (snd (snd (loop_body (quiet_world [] 0) [''T1'', ''T3''] tick_15 before_tick_15)))
     = pushed before_tick_15 @ [] @ [(''T1'', ''ggg'')]
   \<and> \<not> phase_elapsed tick_15
   \<and> resolve_state (patterns (PHASES ! current_phase (fst (snd (loop_body (quiet_world [] 0)
         [''T1'', ''T3''] tick_15 before_tick_15))))) (time_in_phase tick_15) ''T1''
       = Some ''ggg''
   \<and> ''ggg'' \<noteq> after_pushes [] (lights before_tick_15) ''T1''
   \<and> pushed (snd (snd (loop_body (quiet_world [] 0) [''T2'', ''T5''] tick_60 end_of_phase_1)))
       = pushed end_of_phase_1 @ [(''T2'', ''gg''), (''T5'', ''g'')] @ []
   \<and> phase_elapsed tick_60 \<and> fault (quiet_world [] 0) (calls end_of_phase_1) = None
   \<and> current_phase tick_60 < length PHASES
   \<and> fst (loop_body (quiet_world [] 0) [''T2'', ''T5''] tick_60 end_of_phase_1) = None
   \<and> first_segment_pushes (patterns (PHASES ! current_phase (next_phase tick_60)))
        [''T2'', ''T5''] = [(''T2'', ''gg''), (''T5'', ''g'')] @ []"
proof -
  note t15 = change_suppression [of "quiet_world [] 0" "[''T1'', ''T3'']" tick_15 before_tick_15]
  note t60 = change_suppression [of "quiet_world [] 0" "[''T2'', ''T5'']" tick_60 end_of_phase_1]
  have 1: "pushed (snd (snd (loop_body (quiet_world [] 0) [''T1'', ''T3''] tick_15
             before_tick_15))) = [(''T1'', ''ggg'')]"
    by code_simp
  have 2: "\<not> phase_elapsed tick_15"
    by (simp add: phase_elapsed_def time_in_phase_def tick_15_def PHASES_def)
  have 3: "resolve_state (patterns (PHASES ! current_phase (fst (snd (loop_body
         (quiet_world [] 0) [''T1'', ''T3''] tick_15 before_tick_15)))))
         (time_in_phase tick_15) ''T1'' = Some ''ggg''"
    by code_simp
  have 4: "''ggg'' \<noteq> after_pushes [] (lights before_tick_15) ''T1''"
    by (simp add: before_tick_15_def)
  have 5: "pushed (snd (snd (loop_body (quiet_world [] 0) [''T2'', ''T5''] tick_60
             end_of_phase_1))) = [(''T2'', ''gg''), (''T5'', ''g'')]"
    by code_simp
  have 6: "phase_elapsed tick_60"
    by (simp add: phase_elapsed_def time_in_phase_def tick_60_def PHASES_def)
  have 7: "fault (quiet_world [] 0) (calls end_of_phase_1) = None"
    by (simp add: quiet_world_def)
  have 8: "current_phase tick_60 < length PHASES"
    by (simp add: tick_60_def PHASES_def)
  have 9: "fst (loop_body (quiet_world [] 0) [''T2'', ''T5''] tick_60 end_of_phase_1) = None"
    by code_simp
  have 10: "first_segment_pushes (patterns (PHASES ! current_phase (next_phase tick_60)))
        [''T2'', ''T5''] = [(''T2'', ''gg''), (''T5'', ''g'')]"
    by code_simp
  have 11: "pushed before_tick_15 = []" "pushed end_of_phase_1 = []"
    by (simp_all add: before_tick_15_def end_of_phase_1_def)
  from t15 t60 1 2 3 4 5 6 7 8 9 10 11 show ?thesis
    by simp
qed

text \<open>
  The claim as stated fails on an iteration that crosses a phase boundary: the
  transition block pushes the first segment of the new phase without reading the light.
  In a run of 61 iterations with the single light T3, whose program is red throughout
  phases 1 and 2, the initial push of rrr is followed at step 60 by a second push of the
  same string.
\<close>

theorem transition_push_counterexample:
  "iterations (fst (snd (snd (run_simulation (quiet_world [''T3''] 61))))) = 61
   \<and> pushed (snd (snd (snd (run_simulation (quiet_world [''T3''] 61)))))
       = [(''T3'', ''rrr''), (''T3'', ''rrr'')]"
proof -
  have a: "iterations (fst (snd (snd (run_simulation (quiet_world [''T3''] 61))))) = 61"
    by code_simp
  have b: "pushed (snd (snd (snd (run_simulation (quiet_world [''T3''] 61)))))
       = [(''T3'', ''rrr''), (''T3'', ''rrr'')]"
    by code_simp
  from a b show ?thesis by (intro conjI)
qed

section \<open>The bound on the loop\<close>

lemma loop_body_run:
  assumes "loop_body w tls r s = (x, r', s')"
  shows "iterations r' = iterations r"
    and "x = None \<Longrightarrow> step r' = step r + 1"
  using assms
  by (auto simp: loop_body_def next_phase_def split: prod.splits option.splits if_splits)

lemma main_loop_bound:
  assumes "main_loop w tls r s = (x, r', s')"
    and "int (iterations r) = step r" and "step r \<le> SIMULATION_TIME"
  shows "int (iterations r') \<le> SIMULATION_TIME
         \<and> (x = None \<longrightarrow> int (iterations r') = step r'
               \<and> (step r' < SIMULATION_TIME \<longrightarrow> min_expected w (steps_done s') \<le> 0))"
  using assms
proof (induction w tls r s rule: main_loop.induct)
  case (1 w tls r s)
  show ?case
  proof (cases "step r < SIMULATION_TIME")
    case False
    with "1.prems" show ?thesis by (simp add: main_loop.simps)
  next
    case budget: True
    obtain a s1 where g: "getMinExpectedNumber w s = (a, s1)"
      by (cases "getMinExpectedNumber w s")
    show ?thesis
    proof (cases a)
      case (Inl e)
      with "1.prems" budget g show ?thesis
        by (auto simp: main_loop.simps)
    next
      case (Inr n)
      from g Inr have n: "n = min_expected w (steps_done s1)"
        by (auto simp: getMinExpectedNumber_def traci_call_def split: prod.splits option.splits)
      show ?thesis
      proof (cases "n > 0")
        case False
        with "1.prems" budget g Inr n show ?thesis
          by (auto simp: main_loop.simps)
      next
        case True
        obtain y r2 s2 where b: "loop_body w tls (r\<lparr>iterations := Suc (iterations r)\<rparr>) s1 = (y, r2, s2)"
          by (cases "loop_body w tls (r\<lparr>iterations := Suc (iterations r)\<rparr>) s1")
        from loop_body_run(1) [OF b] have i2: "iterations r2 = Suc (iterations r)"
          by simp
        show ?thesis
        proof (cases y)
          case (Some e)
          with "1.prems" budget g Inr True b i2 show ?thesis
            by (auto simp: main_loop.simps)
        next
          case None
          with loop_body_run(2) [OF b] have st: "step r2 = step r + 1"
            by simp
          from "1.prems" budget g Inr True b None
          have m: "main_loop w tls r2 s2 = (x, r', s')"
            by (simp add: main_loop.simps)
          from "1.prems"(2) i2 st have inv: "int (iterations r2) = step r2"
            by simp
          from budget st have le: "step r2 \<le> SIMULATION_TIME"
            by simp
          from "1.IH" [OF budget g [symmetric] Inr True b [symmetric] _ _ m inv le] None
          show ?thesis by simp
        qed
      qed
    qed
  qed
qed

lemma try_block_cases:
  "(fst (try_block w) \<noteq> Finished \<and> fst (snd (try_block w)) = initial_run)
   \<or> (\<exists>tls s x r s'. main_loop w tls initial_run s = (x, r, s')
         \<and> try_block w = (case x of None \<Rightarrow> Finished | Some e \<Rightarrow> Raised e, r, s'))"
proof -
  obtain a s0 where 1: "traci_start w = (a, s0)" by (cases "traci_start w")
  obtain b s1 where 2: "getIDList w s0 = (b, s1)" by (cases "getIDList w s0")
  show ?thesis
  proof (cases a)
    case Some
    with 1 show ?thesis by (simp add: try_block_def)
  next
    case None
    note a = this
    show ?thesis
    proof (cases b)
      case Inl
      with 1 2 a show ?thesis by (simp add: try_block_def)
    next
      case (Inr all_tls)
      note b = this
      obtain c s2 where 3: "take_control w all_tls (map fst TRAFFIC_LIGHTS) [] s1 = (c, s2)"
        by (cases "take_control w all_tls (map fst TRAFFIC_LIGHTS) [] s1")
      show ?thesis
      proof (cases c)
        case Inl
        with 1 2 3 a b show ?thesis by (simp add: try_block_def)
      next
        case (Inr tls)
        note c = this
        show ?thesis
        proof (cases "tls = []")
          case True
          with 1 2 3 a b c show ?thesis
            by (simp add: try_block_def split: prod.splits option.splits)
        next
          case False
          note ne = this
          obtain d s3 where 4: "simulationStep w s2 = (d, s3)" by (cases "simulationStep w s2")
          obtain e s4 where 5: "push_first_segments w (patterns (PHASES ! 0)) tls s3 = (e, s4)"
            by (cases "push_first_segments w (patterns (PHASES ! 0)) tls s3")
          obtain x r s5 where 6: "main_loop w tls initial_run s4 = (x, r, s5)"
            by (cases "main_loop w tls initial_run s4")
          show ?thesis
          proof (cases d)
            case Some
            with 1 2 3 4 a b c ne show ?thesis by (simp add: try_block_def)
          next
            case None
            note d = this
            show ?thesis
            proof (cases e)
              case Some
              with 1 2 3 4 5 a b c d ne show ?thesis by (simp add: try_block_def)
            next
              case None
              with 1 2 3 4 5 6 a b c d ne have
                "try_block w = (case x of None \<Rightarrow> Finished | Some e \<Rightarrow> Raised e, r, s5)"
                by (simp add: try_block_def split: option.splits)
              with 6 show ?thesis by blast
            qed
          qed
        qed
      qed
    qed
  qed
qed

text \<open>
  Claim C7, as the code has it. In every run, and whenever the loop of line 124 is
  entered with the initial loop variables as \<^verbatim>\<open>run_simulation\<close> enters it, the
  body of the loop is entered at most \<^const>\<open>SIMULATION_TIME\<close> times. The loop
  enters it fewer times only if an exception is raised inside the loop, or the simulator
  reported no remaining vehicle (a number that is not positive) at the test at which the
  loop was left.
\<close>

theorem loop_iterations_bounded:
  "int (iterations (fst (snd (snd (run_simulation w))))) \<le> SIMULATION_TIME
   \<and> int (iterations (fst (snd (main_loop w tls initial_run s)))) \<le> SIMULATION_TIME
   \<and> (int (iterations (fst (snd (main_loop w tls initial_run s)))) < SIMULATION_TIME \<longrightarrow>
        fst (main_loop w tls initial_run s) \<noteq> None
        \<or> min_expected w (steps_done (snd (snd (main_loop w tls initial_run s)))) \<le> 0)"
proof -
  have start: "int (iterations initial_run) = step initial_run"
    "step initial_run \<le> SIMULATION_TIME"
    by (simp_all add: initial_run_def SIMULATION_TIME_def)
  have loop: "int (iterations (fst (snd (main_loop w l initial_run t)))) \<le> SIMULATION_TIME
   \<and> (int (iterations (fst (snd (main_loop w l initial_run t)))) < SIMULATION_TIME \<longrightarrow>
        fst (main_loop w l initial_run t) \<noteq> None
        \<or> min_expected w (steps_done (snd (snd (main_loop w l initial_run t)))) \<le> 0)"
    for l t
  proof -
    obtain x r' s' where m: "main_loop w l initial_run t = (x, r', s')"
      by (cases "main_loop w l initial_run t")
    from main_loop_bound [OF m start] m show ?thesis
      by auto
  qed
  have r: "fst (snd (snd (run_simulation w))) = fst (snd (try_block w))"
    by (simp add: run_simulation_def split: prod.splits)
  from try_block_cases [of w]
  have "int (iterations (fst (snd (try_block w)))) \<le> SIMULATION_TIME"
  proof
    assume "fst (try_block w) \<noteq> Finished \<and> fst (snd (try_block w)) = initial_run"
    then show ?thesis
      by (simp add: initial_run_def SIMULATION_TIME_def)
  next
    assume "\<exists>l t x r' s'. main_loop w l initial_run t = (x, r', s')
         \<and> try_block w = (case x of None \<Rightarrow> Finished | Some e \<Rightarrow> Raised e, r', s')"
    then obtain l t x r' s' where m: "main_loop w l initial_run t = (x, r', s')"
      and t: "try_block w = (case x of None \<Rightarrow> Finished | Some e \<Rightarrow> Raised e, r', s')"
      by blast
    from loop [of l t] m t show ?thesis
      by simp
  qed
  with r loop [of tls s] show ?thesis
    by simp
qed

theorem loop_iterations_bounded_witness:
  "int (iterations (fst (snd (main_loop (quiet_world [] 3) [''T3''] initial_run
          (snd (traci_start (quiet_world [] 3))))))) < SIMULATION_TIME
   \<and> iterations (fst (snd (main_loop (quiet_world [] 3) [''T3''] initial_run
          (snd (traci_start (quiet_world [] 3)))))) = 4
   \<and> fst (main_loop (quiet_world [] 3) [''T3''] initial_run
          (snd (traci_start (quiet_world [] 3)))) = None
   \<and> min_expected (quiet_world [] 3)
        (steps_done (snd (snd (main_loop (quiet_world [] 3) [''T3''] initial_run
          (snd (traci_start (quiet_world [] 3))))))) \<le> 0"
proof -
  have a: "iterations (fst (snd (main_loop (quiet_world [] 3) [''T3''] initial_run
          (snd (traci_start (quiet_world [] 3)))))) = 4"
    by code_simp
  have b: "fst (main_loop (quiet_world [] 3) [''T3''] initial_run
          (snd (traci_start (quiet_world [] 3)))) = None"
    by code_simp
  from loop_iterations_bounded [of "quiet_world [] 3" "[''T3'']"
         "snd (traci_start (quiet_world [] 3))"] a b
  show ?thesis
    by (simp add: SIMULATION_TIME_def)
qed

text \<open>
  The claim as stated fails when a call raises inside the loop: on
  \<^const>\<open>crash_world\<close> the simulation step of the first iteration fails fatally,
  the body has been entered once, and the simulator reported one remaining vehicle at
  the only test of the condition.
\<close>

theorem loop_aborted_counterexample:
  "iterations (fst (snd (snd (run_simulation crash_world)))) = 1
   \<and> fst (snd (run_simulation crash_world)) = Raised FatalTraCIError
   \<and> steps_done (snd (snd (snd (run_simulation crash_world)))) = 1
   \<and> min_expected crash_world 1 = 1"
  by code_simp

section \<open>Release of the simulator\<close>

text \<open>
  Claim C9. However the \<^verbatim>\<open>try\<close> block ends (line 179 reached, return at
  line 99, any exception), \<^verbatim>\<open>close\<close> is invoked once more after it, and what
  this last call raises never leaves the function: the exception that leaves
  \<^verbatim>\<open>run_simulation\<close>, if any, is decided by the \<^verbatim>\<open>try\<close> block alone, and is
  never a \<^verbatim>\<open>FatalTraCIError\<close> or another \<^verbatim>\<open>Exception\<close>.
\<close>

theorem close_always_attempted:
  "closes (snd (snd (snd (run_simulation w)))) = Suc (closes (snd (snd (try_block w))))
   \<and> fst (run_simulation w) = propagated (fst (try_block w))
   \<and> fst (run_simulation w) \<noteq> Some FatalTraCIError
   \<and> fst (run_simulation w) \<noteq> Some OtherException"
proof -
  have "propagated e \<noteq> Some FatalTraCIError \<and> propagated e \<noteq> Some OtherException" for e
    by (cases e rule: propagated.cases) simp_all
  then show ?thesis
    by (simp add: run_simulation_def traci_close_def traci_call_def split: prod.splits)
qed

theorem close_always_attempted_witness:
  "fault stuck_world 3 = Some BaseOnly
   \<and> calls (snd (snd (snd (run_simulation stuck_world)))) = 4
   \<and> closes (snd (snd (snd (run_simulation stuck_world)))) = 2
   \<and> fst (snd (run_simulation stuck_world)) = Returned
   \<and> fst (run_simulation stuck_world) = None"
proof -
  have 1: "fault stuck_world 3 = Some BaseOnly"
    by (simp add: stuck_world_def)
  have 2: "calls (snd (snd (snd (run_simulation stuck_world)))) = 4"
    by code_simp
  have 3: "closes (snd (snd (try_block stuck_world))) = 1"
    by code_simp
  have 4: "fst (try_block stuck_world) = Returned"
    by code_simp
  have 5: "fst (snd (run_simulation stuck_world)) = Returned"
    by code_simp
  from close_always_attempted [of stuck_world] 1 2 3 4 5 show ?thesis
    by simp
qed

end
